theory Spec2Isabelle
  imports Complex_Main "HOL-Library.Word" "HOL-Library.Sublist"
begin

section \<open>Values of the host language\<close>

text \<open>
  A JavaScript string is a sequence of 16-bit code units. String literals of the source are
  written through \<open>str\<close>, which maps an ASCII literal to its code units.
\<close>

type_synonym jsstring = "16 word list"

definition str :: "string \<Rightarrow> jsstring" where
  "str s = map (\<lambda>c. of_nat (of_char c)) s"

text \<open>
  A JavaScript number is \<open>NaN\<close>, an infinity or a finite value. Finite values are kept as
  reals: the source only compares numbers and takes the sign of a difference, and on finite
  doubles the sign of the rounded difference is the sign of the exact one.
\<close>

datatype number = NaN | NegInf | Fin real | PosInf

text \<open>\<open>a > b\<close>: false as soon as one side is \<open>NaN\<close>.\<close>

fun num_gt :: "number \<Rightarrow> number \<Rightarrow> bool" where
  "num_gt NaN b = False"
| "num_gt a NaN = False"
| "num_gt PosInf PosInf = False"
| "num_gt PosInf b = True"
| "num_gt a PosInf = False"
| "num_gt NegInf b = False"
| "num_gt (Fin x) NegInf = True"
| "num_gt (Fin x) (Fin y) = (y < x)"

text \<open>\<open>a - b\<close>.\<close>

fun num_sub :: "number \<Rightarrow> number \<Rightarrow> number" where
  "num_sub NaN b = NaN"
| "num_sub a NaN = NaN"
| "num_sub PosInf PosInf = NaN"
| "num_sub PosInf b = PosInf"
| "num_sub NegInf NegInf = NaN"
| "num_sub NegInf b = NegInf"
| "num_sub (Fin x) PosInf = NegInf"
| "num_sub (Fin x) NegInf = PosInf"
| "num_sub (Fin x) (Fin y) = Fin (x - y)"

text \<open>\<open>a === b\<close> on numbers: \<open>NaN\<close> is not equal to itself.\<close>

definition num_seq :: "number \<Rightarrow> number \<Rightarrow> bool" where
  "num_seq a b = (a \<noteq> NaN \<and> a = b)"

text \<open>An exception is either the \<open>TypeError\<close> of a property read on \<open>undefined\<close>, or a
  value thrown by a collaborator.\<close>

datatype 'e js_error = TypeError | Thrown 'e

section \<open>Data model\<close>

record chunk =
  language :: jsstring
  digest :: jsstring
  filepath :: jsstring
  content :: jsstring
  startLine :: number
  endLine :: number
  index :: number

record commit =
  hash :: jsstring
  message :: jsstring

text \<open>The fields of \<open>RetrievalQueryTerm\<close> that the retrieval strategies read; \<open>term.n\<close> is
  \<open>term_n\<close> and \<open>term.language\<close> is \<open>term_language\<close>.\<close>

record 'tags retrieval_query_term =
  query :: jsstring
  term_n :: int
  tags :: 'tags
  filterDirectory :: "jsstring option"
  term_language :: "jsstring option"

section \<open>Retrieval.deduplicateArray and Retrieval.deduplicateChunks\<close>

text \<open>The \<open>for\<close> loop of \<open>deduplicateArray\<close>, with \<open>result\<close> as the loop state;
  \<open>result.some(p)\<close> is \<open>list_ex p result\<close>.\<close>

fun dedup_loop :: "('a \<Rightarrow> 'a \<Rightarrow> bool) \<Rightarrow> 'a list \<Rightarrow> 'a list \<Rightarrow> 'a list" where
  "dedup_loop equal result [] = result"
| "dedup_loop equal result (item # rest) =
     dedup_loop equal
       (if \<not> list_ex (\<lambda>existingItem. equal existingItem item) result
        then result @ [item] else result)
       rest"

definition deduplicateArray :: "'a list \<Rightarrow> ('a \<Rightarrow> 'a \<Rightarrow> bool) \<Rightarrow> 'a list" where
  "deduplicateArray array equal = dedup_loop equal [] array"

definition chunk_equal :: "chunk \<Rightarrow> chunk \<Rightarrow> bool" where
  "chunk_equal a b =
     (filepath a = filepath b \<and> num_seq (startLine a) (startLine b)
      \<and> num_seq (endLine a) (endLine b))"

definition deduplicateChunks :: "chunk list \<Rightarrow> chunk list" where
  "deduplicateChunks chunks = deduplicateArray chunks chunk_equal"

section \<open>Retrieval.retrieveGit\<close>

text \<open>
  The source-control collaborator \<open>GitAction\<close>: both calls may throw. The TF-IDF engine
  (\<open>addDocuments\<close> followed by \<open>search\<close>) is a parameter \<open>search\<close> of the model, a function
  from the documents and the query to the array of scores; nothing is assumed about it.
\<close>

record 'e git_action =
  getHistoryCommits :: "'e + commit list"
  getChangeByHash :: "jsstring \<Rightarrow> 'e + jsstring"

text \<open>\<open>results[i]\<close> used as an operand of \<open>-\<close>: a read outside the array is \<open>undefined\<close>,
  which arithmetic turns into \<open>NaN\<close>.\<close>

definition results_at :: "number list \<Rightarrow> int \<Rightarrow> number" where
  "results_at results i =
     (if 0 \<le> i \<and> nat i < length results then results ! nat i else NaN)"

text \<open>\<open>results.map((score, index) => score > threshold ? index : -1)
  .filter((index) => index !== -1)\<close>\<close>

definition passing_indexes :: "number list \<Rightarrow> number \<Rightarrow> int list" where
  "passing_indexes results threshold =
     filter (\<lambda>index. index \<noteq> - 1)
       (map (\<lambda>(score, index). if num_gt score threshold then index else - 1)
          (zip results (map int [0..<length results])))"

text \<open>The comparator \<open>(a, b) => results[b] - results[a]\<close>.\<close>

definition score_compare :: "number list \<Rightarrow> int \<Rightarrow> int \<Rightarrow> number" where
  "score_compare results a b = num_sub (results_at results b) (results_at results a)"

text \<open>
  \<open>Array.prototype.sort\<close> is a stable sort: \<open>a\<close> is moved behind \<open>b\<close> only when the
  comparator's value is positive; zero and \<open>NaN\<close> leave the two in their order. It is
  written here as a stable insertion sort. On the indexes that pass the threshold the
  comparator is consistent (their scores are never \<open>NaN\<close>), so the result does not depend
  on the sorting algorithm of the engine.
\<close>

fun insert_sorted :: "('a \<Rightarrow> 'a \<Rightarrow> number) \<Rightarrow> 'a \<Rightarrow> 'a list \<Rightarrow> 'a list" where
  "insert_sorted cmp x [] = [x]"
| "insert_sorted cmp x (y # ys) =
     (if num_gt (cmp x y) (Fin 0) then y # insert_sorted cmp x ys else x # y # ys)"

fun array_sort :: "('a \<Rightarrow> 'a \<Rightarrow> number) \<Rightarrow> 'a list \<Rightarrow> 'a list" where
  "array_sort cmp [] = []"
| "array_sort cmp (x # xs) = insert_sorted cmp x (array_sort cmp xs)"

definition sorted_indexes :: "number list \<Rightarrow> number \<Rightarrow> int list" where
  "sorted_indexes results threshold =
     array_sort (score_compare results) (passing_indexes results threshold)"

text \<open>\<open>xs.slice(0, e)\<close>: a negative end counts from the end of the array.\<close>

definition slice0 :: "'a list \<Rightarrow> int \<Rightarrow> 'a list" where
  "slice0 xs e = (if e < 0 then take (length xs - nat (- e)) xs else take (nat e) xs)"

definition commit_chunk :: "commit \<Rightarrow> jsstring \<Rightarrow> chunk" where
  "commit_chunk c changes =
     \<lparr>language = [], digest = hash c, filepath = hash c, content = changes,
      startLine = Fin 0, endLine = Fin 0, index = Fin 0\<rparr>"

text \<open>The loop over \<open>indexes\<close>, with \<open>chunks\<close> as the loop state. \<open>commits[index]\<close> outside
  the array is \<open>undefined\<close>, and reading its \<open>hash\<close> throws a \<open>TypeError\<close>.\<close>

fun git_loop ::
  "'e git_action \<Rightarrow> commit list \<Rightarrow> chunk list \<Rightarrow> int list \<Rightarrow> 'e js_error + chunk list" where
  "git_loop git commits chunks [] = Inr chunks"
| "git_loop git commits chunks (i # rest) =
     (if i = - 1 then git_loop git commits chunks rest
      else if \<not> (0 \<le> i \<and> nat i < length commits) then Inl TypeError
      else
        (case getChangeByHash git (hash (commits ! nat i)) of
           Inl e \<Rightarrow> Inl (Thrown e)
         | Inr changes \<Rightarrow>
             if changes = [] then git_loop git commits chunks rest
             else git_loop git commits
                    (chunks @ [commit_chunk (commits ! nat i) changes]) rest))"

text \<open>The window of indexes whose diffs are fetched: the sorted passing indexes cut to
  \<open>term.n\<close>. The threshold is an argument of \<open>retrieveGit\<close>; a caller that leaves it out
  gets \<open>0.6\<close>.\<close>

definition git_window :: "number list \<Rightarrow> number \<Rightarrow> int \<Rightarrow> int list" where
  "git_window results threshold cap = slice0 (sorted_indexes results threshold) cap"

definition retrieveGit ::
  "(jsstring list \<Rightarrow> jsstring \<Rightarrow> number list) \<Rightarrow> 'e git_action \<Rightarrow>
   ('tags, 'm) retrieval_query_term_scheme \<Rightarrow> number \<Rightarrow> 'e js_error + chunk list" where
  "retrieveGit search git term threshold =
     (case getHistoryCommits git of
        Inl e \<Rightarrow> Inl (Thrown e)
      | Inr commits \<Rightarrow>
          (let commitMessages = map message commits;
               results = search commitMessages (query term);
               indexes = sorted_indexes results threshold
           in if length indexes = 0 then Inr []
              else git_loop git commits [] (slice0 indexes (term_n term))))"

text \<open>Descriptions used to state the properties: the order the sort is to produce
  (descending score, ascending index among equal scores), and the diff of the commit at an
  index.\<close>

definition ranked_before :: "number list \<Rightarrow> int \<Rightarrow> int \<Rightarrow> bool" where
  "ranked_before results a b =
     (num_gt (results_at results a) (results_at results b)
      \<or> (results_at results a = results_at results b \<and> a < b))"

definition diff_of :: "'e git_action \<Rightarrow> commit list \<Rightarrow> int \<Rightarrow> jsstring" where
  "diff_of git commits i =
     (case getChangeByHash git (hash (commits ! nat i)) of Inr d \<Rightarrow> d | Inl e \<Rightarrow> [])"

text \<open>An example run: four commits, fixed scores, and a collaborator for which commit \<open>c\<close>
  has an empty diff.\<close>

definition demo_commits :: "commit list" where
  "demo_commits =
     [\<lparr>hash = str ''a'', message = str ''fix login bug''\<rparr>,
      \<lparr>hash = str ''b'', message = str ''update docs''\<rparr>,
      \<lparr>hash = str ''c'', message = str ''fix login redirect''\<rparr>,
      \<lparr>hash = str ''d'', message = str ''login page''\<rparr>]"

definition demo_search :: "jsstring list \<Rightarrow> jsstring \<Rightarrow> number list" where
  "demo_search docs q = [Fin (7/8), Fin (1/2), Fin (3/4), Fin (5/8)]"

definition demo_git :: "string git_action" where
  "demo_git =
     \<lparr>getHistoryCommits = Inr demo_commits,
      getChangeByHash = (\<lambda>h. if h = str ''c'' then Inr [] else Inr (str ''diff of '' @ h))\<rparr>"

definition demo_term :: "unit retrieval_query_term" where
  "demo_term =
     \<lparr>query = str ''login bug'', term_n = 2, tags = (), filterDirectory = None,
      term_language = None\<rparr>"

section \<open>Retrieval.retrieveFts\<close>

text \<open>\<open>String.prototype.trim\<close> removes white space and line terminators at both ends.\<close>

definition is_ws :: "16 word \<Rightarrow> bool" where
  "is_ws c =
     (c \<in> set [0x9, 0xA, 0xB, 0xC, 0xD, 0x20, 0xA0, 0x1680, 0x2028, 0x2029, 0x202F,
                0x205F, 0x3000, 0xFEFF]
      \<or> (0x2000 \<le> c \<and> c \<le> 0x200A))"

definition trim :: "jsstring \<Rightarrow> jsstring" where
  "trim s = rev (dropWhile is_ws (rev (dropWhile is_ws s)))"

text \<open>\<open>s.split(" ")\<close>: a cut at every single space; the empty string gives one empty
  piece.\<close>

fun split_space :: "jsstring \<Rightarrow> jsstring list" where
  "split_space [] = [[]]"
| "split_space (c # cs) =
     (if c = 0x20 then [] # split_space cs
      else (case split_space cs of
              [] \<Rightarrow> [[c]]
            | t # ts \<Rightarrow> (c # t) # ts))"

fun join :: "jsstring \<Rightarrow> jsstring list \<Rightarrow> jsstring" where
  "join sep [] = []"
| "join sep [x] = x"
| "join sep (x # y # ys) = x @ sep @ join sep (y # ys)"

text \<open>The template literal \<open>`"${element}"`\<close>.\<close>

definition quoted :: "jsstring \<Rightarrow> jsstring" where
  "quoted element = str ''\"'' @ element @ str ''\"''"

definition fts_query :: "jsstring \<Rightarrow> jsstring" where
  "fts_query q = join (str '' OR '') (map quoted (split_space (trim q)))"

text \<open>The arguments of one call of \<open>FullTextSearchCodebaseIndex.retrieve\<close>.\<close>

record 'tags fts_call =
  call_tags :: 'tags
  call_query :: jsstring
  call_limit :: int
  call_directory :: "jsstring option"
  call_file :: "jsstring option"
  call_threshold :: number
  call_language :: "jsstring option"

text \<open>What a run of \<open>retrieveFts\<close> does: the value returned or the exception thrown, the
  calls made to the engine, and the warnings written to the console.\<close>

record ('tags, 'e) fts_outcome =
  returned :: "'e + chunk list"
  engine_calls :: "'tags fts_call list"
  warnings :: "(jsstring \<times> 'e) list"

text \<open>The body of the \<open>try\<close> block. The engine \<open>retrieve\<close> and the constant
  \<open>RETRIEVAL_PARAMS.bm25Threshold\<close> are parameters.\<close>

definition retrieve_call ::
  "number \<Rightarrow> ('tags, 'm) retrieval_query_term_scheme \<Rightarrow> 'tags fts_call" where
  "retrieve_call bm25Threshold term =
     \<lparr>call_tags = tags term, call_query = fts_query (query term),
      call_limit = term_n term, call_directory = filterDirectory term,
      call_file = None, call_threshold = bm25Threshold,
      call_language = term_language term\<rparr>"

definition retrieveFts_try ::
  "('tags fts_call \<Rightarrow> 'e + chunk list) \<Rightarrow> number \<Rightarrow> ('tags, 'm) retrieval_query_term_scheme \<Rightarrow>
   ('e + chunk list) \<times> 'tags fts_call list" where
  "retrieveFts_try retrieve bm25Threshold term =
     (if trim (query term) \<noteq> [] then
        (retrieve (retrieve_call bm25Threshold term), [retrieve_call bm25Threshold term])
      else (Inr [], []))"

definition retrieveFts ::
  "('tags fts_call \<Rightarrow> 'e + chunk list) \<Rightarrow> number \<Rightarrow> ('tags, 'm) retrieval_query_term_scheme \<Rightarrow>
   ('tags, 'e) fts_outcome" where
  "retrieveFts retrieve bm25Threshold term =
     (case retrieveFts_try retrieve bm25Threshold term of
        (Inr ftsResults, calls) \<Rightarrow>
          \<lparr>returned = Inr ftsResults, engine_calls = calls, warnings = []\<rparr>
      | (Inl e, calls) \<Rightarrow>
          \<lparr>returned = Inr [], engine_calls = calls,
           warnings = [(str ''Error retrieving from FTS:'', e)]\<rparr>)"

text \<open>The query string as the specification words it: the tokens of the trimmed input that
  white space separates, each in double quotes, joined with \<open>OR\<close>.\<close>

fun spec_tokens :: "jsstring \<Rightarrow> jsstring \<Rightarrow> jsstring list" where
  "spec_tokens tok [] = (if tok = [] then [] else [tok])"
| "spec_tokens tok (c # cs) =
     (if is_ws c then (if tok = [] then spec_tokens [] cs else tok # spec_tokens [] cs)
      else spec_tokens (tok @ [c]) cs)"

definition spec_whitespace_tokens :: "jsstring \<Rightarrow> jsstring list" where
  "spec_whitespace_tokens s = spec_tokens [] s"

definition spec_fts_query :: "jsstring \<Rightarrow> jsstring" where
  "spec_fts_query q = join (str '' OR '') (map quoted (spec_whitespace_tokens (trim q)))"

text \<open>Two engines for the example runs: one that throws on every call, one that finds
  nothing.\<close>

definition demo_failing_engine :: "unit fts_call \<Rightarrow> string + chunk list" where
  "demo_failing_engine call = Inl ''database disk image is malformed''"

definition demo_engine :: "unit fts_call \<Rightarrow> string + chunk list" where
  "demo_engine call = Inr []"

section \<open>SqliteDb.get\<close>

text \<open>
  The store file holds tables; \<open>CREATE TABLE IF NOT EXISTS\<close> is the only statement the
  source executes. A handle is an object with an identity, opened on a path.
\<close>

record table =
  columns :: "jsstring list"
  rows :: "jsstring list list"

type_synonym database = "jsstring \<rightharpoonup> table"

datatype sql = CreateTableIfNotExists jsstring "jsstring list"

record handle =
  hid :: nat
  hpath :: jsstring

datatype event = Open jsstring | Exec handle sql

datatype sqlite_error = SqliteError event

text \<open>
  The state: the static fields \<open>SqliteDb.db\<close> and \<open>SqliteDb.indexSqlitePath\<close>, and the
  world outside: the path \<open>getIndexSqlitePath()\<close> returns now, the store files on disk,
  the identity of the next handle, the calls made to the store so far, and which calls
  fail.
\<close>

record world =
  db :: "handle option"
  indexSqlitePath :: jsstring
  currentIndexSqlitePath :: jsstring
  files :: "jsstring \<rightharpoonup> database"
  next_handle :: nat
  events :: "event list"
  faults :: "event \<Rightarrow> bool"

definition existsSync :: "world \<Rightarrow> jsstring \<Rightarrow> bool" where
  "existsSync w p = (files w p \<noteq> None)"

text \<open>\<open>sqlite.open\<close> creates the store file when it is missing and returns a new handle.\<close>

definition sqlite_open :: "jsstring \<Rightarrow> world \<Rightarrow> (sqlite_error + handle) \<times> world" where
  "sqlite_open p w =
     (let w1 = w\<lparr>events := events w @ [Open p]\<rparr>
      in if faults w (Open p) then (Inl (SqliteError (Open p)), w1)
         else (Inr \<lparr>hid = next_handle w, hpath = p\<rparr>,
               w1\<lparr>files := (case files w p of
                                None \<Rightarrow> (files w)(p \<mapsto> Map.empty)
                              | Some d \<Rightarrow> files w),
                   next_handle := Suc (next_handle w)\<rparr>))"

definition db_exec :: "handle \<Rightarrow> sql \<Rightarrow> world \<Rightarrow> (sqlite_error + unit) \<times> world" where
  "db_exec h stmt w =
     (let w1 = w\<lparr>events := events w @ [Exec h stmt]\<rparr>
      in if faults w (Exec h stmt) then (Inl (SqliteError (Exec h stmt)), w1)
         else (case stmt of
                 CreateTableIfNotExists name cols \<Rightarrow>
                   (case files w (hpath h) of
                      None \<Rightarrow> (Inl (SqliteError (Exec h stmt)), w1)
                    | Some d \<Rightarrow>
                        (Inr (),
                         w1\<lparr>files := (files w)(hpath h \<mapsto>
                              (case d name of
                                 None \<Rightarrow> d(name \<mapsto> \<lparr>columns = cols, rows = []\<rparr>)
                               | Some t \<Rightarrow> d))\<rparr>))))"

definition create_tag_catalog :: sql where
  "create_tag_catalog =
     CreateTableIfNotExists (str ''tag_catalog'')
       [str ''id INTEGER PRIMARY KEY AUTOINCREMENT'', str ''dir STRING NOT NULL'',
        str ''branch STRING NOT NULL'', str ''artifactId STRING NOT NULL'',
        str ''path STRING NOT NULL'', str ''cacheKey STRING NOT NULL'',
        str ''lastUpdated INTEGER NOT NULL'']"

definition create_global_cache :: sql where
  "create_global_cache =
     CreateTableIfNotExists (str ''global_cache'')
       [str ''id INTEGER PRIMARY KEY AUTOINCREMENT'', str ''cacheKey STRING NOT NULL'',
        str ''dir STRING NOT NULL'', str ''branch STRING NOT NULL'',
        str ''artifactId STRING NOT NULL'']"

definition createTables :: "handle \<Rightarrow> world \<Rightarrow> (sqlite_error + unit) \<times> world" where
  "createTables h w =
     (case db_exec h create_tag_catalog w of
        (Inl e, w1) \<Rightarrow> (Inl e, w1)
      | (Inr u, w1) \<Rightarrow> db_exec h create_global_cache w1)"

definition get :: "world \<Rightarrow> (sqlite_error + handle option) \<times> world" where
  "get w =
     (if db w \<noteq> None \<and> existsSync w (indexSqlitePath w) then (Inr (db w), w)
      else
        (let w1 = w\<lparr>indexSqlitePath := currentIndexSqlitePath w\<rparr>
         in case sqlite_open (indexSqlitePath w1) w1 of
              (Inl e, w2) \<Rightarrow> (Inl e, w2)
            | (Inr h, w2) \<Rightarrow>
                (let w3 = w2\<lparr>db := Some h\<rparr>
                 in case createTables h w3 of
                      (Inl e, w4) \<Rightarrow> (Inl e, w4)
                    | (Inr u, w4) \<Rightarrow> (Inr (db w4), w4))))"

text \<open>The state of a first start for the example run: no handle cached, no store file on
  disk, and a store that does not fail.\<close>

definition demo_fresh_world :: world where
  "demo_fresh_world =
     \<lparr>db = None, indexSqlitePath = str ''/idx/autodev-index.sqlite'',
      currentIndexSqlitePath = str ''/idx/autodev-index.sqlite'', files = Map.empty,
      next_handle = 0, events = [], faults = (\<lambda>ev. False)\<rparr>"

section \<open>Properties of deduplication\<close>

lemma dedup_loop_append:
  "dedup_loop equal result (xs @ [x]) =
     (let r = dedup_loop equal result xs
      in if \<not> list_ex (\<lambda>e. equal e x) r then r @ [x] else r)"
  by (induction xs arbitrary: result) simp_all

text \<open>The loop invariant: no kept element is matched by an element kept before it.\<close>

lemma dedup_loop_pairwise:
  "sorted_wrt (\<lambda>a b. \<not> equal a b) result \<Longrightarrow>
   sorted_wrt (\<lambda>a b. \<not> equal a b) (dedup_loop equal result xs)"
  by (induction xs arbitrary: result) (auto simp: sorted_wrt_append list_ex_iff)

lemma dedup_loop_subseq:
  "\<exists>ys. dedup_loop equal result xs = result @ ys \<and> subseq ys xs"
proof (induction xs arbitrary: result)
  case Nil
  show ?case by simp
next
  case (Cons x xs)
  show ?case
  proof (cases "list_ex (\<lambda>e. equal e x) result")
    case True
    from Cons.IH [of result] obtain ys
      where "dedup_loop equal result xs = result @ ys" "subseq ys xs" by blast
    with True show ?thesis by auto
  next
    case False
    from Cons.IH [of "result @ [x]"] obtain ys
      where "dedup_loop equal (result @ [x]) xs = (result @ [x]) @ ys" "subseq ys xs" by blast
    with False show ?thesis by (intro exI [of _ "x # ys"]) simp
  qed
qed

text \<open>On an input that already satisfies the invariant the loop keeps every element.\<close>

lemma dedup_loop_fixed:
  "sorted_wrt (\<lambda>a b. \<not> equal a b) (result @ xs) \<Longrightarrow> dedup_loop equal result xs = result @ xs"
proof (induction xs arbitrary: result)
  case Nil
  show ?case by simp
next
  case (Cons x xs)
  from Cons.prems have nodup: "\<not> list_ex (\<lambda>e. equal e x) result"
    by (auto simp: sorted_wrt_append list_ex_iff)
  from Cons.prems have "sorted_wrt (\<lambda>a b. \<not> equal a b) ((result @ [x]) @ xs)" by simp
  from Cons.IH [OF this] nodup show ?case by simp
qed

text \<open>
  Claim C10. For every array and every binary predicate \<open>equal\<close>, \<open>deduplicateArray\<close> returns
  a subsequence of the input in first-seen order: the empty array gives the empty array, and
  an element appended to the input is appended to the output exactly when no element kept so
  far matches it. Hence for positions \<open>i < j\<close> of the output,
  \<open>equal (output[i], output[j])\<close> is false. No property of \<open>equal\<close> is used.
\<close>

theorem deduplicateArray_first_seen:
  "subseq (deduplicateArray xs equal) xs
   \<and> deduplicateArray [] equal = []
   \<and> deduplicateArray (xs @ [x]) equal =
       (if list_ex (\<lambda>kept. equal kept x) (deduplicateArray xs equal)
        then deduplicateArray xs equal else deduplicateArray xs equal @ [x])
   \<and> (\<forall>i j. i < j \<and> j < length (deduplicateArray xs equal) \<longrightarrow>
          \<not> equal (deduplicateArray xs equal ! i) (deduplicateArray xs equal ! j))"
proof -
  have a: "subseq (deduplicateArray xs equal) xs"
    using dedup_loop_subseq [of equal "[]" xs] by (auto simp: deduplicateArray_def)
  have b: "deduplicateArray (xs @ [x]) equal =
       (if list_ex (\<lambda>kept. equal kept x) (deduplicateArray xs equal)
        then deduplicateArray xs equal else deduplicateArray xs equal @ [x])"
    by (simp add: deduplicateArray_def dedup_loop_append Let_def)
  have "sorted_wrt (\<lambda>a b. \<not> equal a b) (deduplicateArray xs equal)"
    unfolding deduplicateArray_def by (rule dedup_loop_pairwise) simp
  then have c: "\<forall>i j. i < j \<and> j < length (deduplicateArray xs equal) \<longrightarrow>
          \<not> equal (deduplicateArray xs equal ! i) (deduplicateArray xs equal ! j)"
    by (simp add: sorted_wrt_iff_nth_less)
  from a b c show ?thesis by (simp add: deduplicateArray_def)
qed

text \<open>The predicate \<open>\<le>\<close> on numbers is not symmetric: \<open>[3, 2, 3, 1, 2]\<close> becomes
  \<open>[3, 2, 1]\<close>.\<close>

theorem deduplicateArray_first_seen_witness:
  "deduplicateArray [3, 2, 3, 1, 2 :: nat] (\<le>) = [3, 2, 1]
   \<and> (0::nat) < 2 \<and> 2 < length (deduplicateArray [3, 2, 3, 1, 2 :: nat] (\<le>))
   \<and> \<not> deduplicateArray [3, 2, 3, 1, 2 :: nat] (\<le>) ! 0
        \<le> deduplicateArray [3, 2, 3, 1, 2 :: nat] (\<le>) ! 2"
proof -
  have e: "deduplicateArray [3, 2, 3, 1, 2 :: nat] (\<le>) = [3, 2, 1]"
    by (simp add: deduplicateArray_def)
  have h: "(0::nat) < 2 \<and> 2 < length (deduplicateArray [3, 2, 3, 1, 2 :: nat] (\<le>))"
    unfolding e by simp
  from deduplicateArray_first_seen [of "[3, 2, 3, 1, 2 :: nat]" "(\<le>)" 0] h
  have "\<not> deduplicateArray [3, 2, 3, 1, 2 :: nat] (\<le>) ! 0
          \<le> deduplicateArray [3, 2, 3, 1, 2 :: nat] (\<le>) ! 2"
    by blast
  with e h show ?thesis by blast
qed

text \<open>
  Claim C8. For every sequence of chunks, deduplicating the deduplicated sequence returns it
  unchanged; two chunks are duplicates when \<open>filepath\<close>, \<open>startLine\<close> and \<open>endLine\<close> are
  all equal under \<open>===\<close>.
\<close>

theorem deduplicateChunks_idempotent:
  "deduplicateChunks (deduplicateChunks xs) = deduplicateChunks xs"
proof -
  have "sorted_wrt (\<lambda>a b. \<not> chunk_equal a b) (dedup_loop chunk_equal [] xs)"
    by (rule dedup_loop_pairwise) simp
  then show ?thesis
    using dedup_loop_fixed [of chunk_equal "[]" "dedup_loop chunk_equal [] xs"]
    by (simp add: deduplicateChunks_def deduplicateArray_def)
qed

section \<open>Properties of the commit-history strategy\<close>

subsection \<open>Comparison of numbers\<close>

text \<open>The sign test on the comparator's difference agrees with \<open>>\<close> on the scores, for all
  numbers, \<open>NaN\<close> and the infinities included.\<close>

lemma num_gt_sub: "num_gt (num_sub b a) (Fin 0) = num_gt b a"
  by (cases a; cases b) simp_all

lemma num_gt_irrefl: "\<not> num_gt a a"
  by (cases a) simp_all

lemma num_gt_trans: "num_gt a b \<Longrightarrow> num_gt b c \<Longrightarrow> num_gt a c"
  by (cases a; cases b; cases c) simp_all

lemma num_gt_total: "a \<noteq> NaN \<Longrightarrow> b \<noteq> NaN \<Longrightarrow> num_gt a b \<or> a = b \<or> num_gt b a"
  by (cases a; cases b) auto

lemma num_gt_not_NaN: "num_gt a b \<Longrightarrow> a \<noteq> NaN \<and> b \<noteq> NaN"
  by (cases a; cases b) simp_all

subsection \<open>Thresholding and sorting\<close>

text \<open>The \<open>map\<close>/\<open>filter\<close> pair with the sentinel \<open>-1\<close> keeps the positions whose score
  passes, in ascending order.\<close>

lemma passing_indexes_filter:
  "passing_indexes results threshold =
     map int (filter (\<lambda>i. num_gt (results ! i) threshold) [0..<length results])"
proof (induction results rule: rev_induct)
  case Nil
  show ?case by (simp add: passing_indexes_def)
next
  case (snoc x xs)
  have "filter (\<lambda>i. num_gt ((xs @ [x]) ! i) threshold) [0..<length xs] =
        filter (\<lambda>i. num_gt (xs ! i) threshold) [0..<length xs]"
    by (rule filter_cong) (simp_all add: nth_append)
  with snoc show ?case
    by (simp add: passing_indexes_def)
qed

lemma set_insert_sorted: "set (insert_sorted cmp x ys) = insert x (set ys)"
  by (induction ys) auto

lemma set_array_sort: "set (array_sort cmp xs) = set xs"
  by (induction xs) (simp_all add: set_insert_sorted)

lemma distinct_insert_sorted: "distinct (insert_sorted cmp x ys) = (x \<notin> set ys \<and> distinct ys)"
  by (induction ys) (auto simp: set_insert_sorted)

lemma distinct_array_sort: "distinct (array_sort cmp xs) = distinct xs"
  by (induction xs) (simp_all add: distinct_insert_sorted set_array_sort)

text \<open>The sort puts the passing indexes in the order \<open>ranked_before\<close>: the insertion step
  keeps it, because the element inserted comes from an earlier position than all the
  elements already sorted.\<close>

lemma ranked_before_trans:
  "ranked_before results a b \<Longrightarrow> ranked_before results b c \<Longrightarrow> ranked_before results a c"
  unfolding ranked_before_def by (auto intro: num_gt_trans)

lemma insert_sorted_ranked:
  assumes "sorted_wrt (ranked_before results) ys"
    and "\<forall>y\<in>set ys. x < y \<and> results_at results y \<noteq> NaN"
    and "results_at results x \<noteq> NaN"
  shows "sorted_wrt (ranked_before results) (insert_sorted (score_compare results) x ys)"
  using assms
proof (induction ys)
  case Nil
  show ?case by simp
next
  case (Cons y ys)
  show ?case
  proof (cases "num_gt (results_at results y) (results_at results x)")
    case True
    then have "ranked_before results y x" by (simp add: ranked_before_def)
    with Cons True show ?thesis
      by (auto simp: score_compare_def num_gt_sub set_insert_sorted)
  next
    case False
    with Cons.prems have xy: "ranked_before results x y"
      using num_gt_total [of "results_at results x" "results_at results y"]
      by (auto simp: ranked_before_def)
    with Cons.prems have "\<forall>z\<in>set ys. ranked_before results x z"
      by (auto intro: ranked_before_trans)
    with xy False Cons.prems show ?thesis
      by (simp add: score_compare_def num_gt_sub)
  qed
qed

lemma array_sort_ranked:
  assumes "sorted_wrt (<) xs" and "\<forall>x\<in>set xs. results_at results x \<noteq> NaN"
  shows "sorted_wrt (ranked_before results) (array_sort (score_compare results) xs)"
  using assms
  by (induction xs) (auto intro!: insert_sorted_ranked simp: set_array_sort)

lemma passing_indexes_ascending: "sorted_wrt (<) (passing_indexes results threshold)"
  unfolding passing_indexes_filter
  by (simp add: sorted_wrt_map sorted_wrt_filter)

lemma passing_indexes_set:
  "set (passing_indexes results threshold) =
     {int i | i. i < length results \<and> num_gt (results ! i) threshold}"
  unfolding passing_indexes_filter by auto

lemma passing_indexes_scores:
  "a \<in> set (passing_indexes results threshold) \<Longrightarrow>
     0 \<le> a \<and> nat a < length results \<and> num_gt (results_at results a) threshold"
  unfolding passing_indexes_set by (auto simp: results_at_def)

lemma sorted_indexes_ranked:
  "sorted_wrt (ranked_before results) (sorted_indexes results threshold)"
  unfolding sorted_indexes_def
  by (rule array_sort_ranked [OF passing_indexes_ascending])
     (auto dest: passing_indexes_scores num_gt_not_NaN)

subsection \<open>The loop over the window\<close>

lemma slice0_subset: "set (slice0 xs e) \<subseteq> set xs"
  by (auto simp: slice0_def dest: in_set_takeD)

lemma retrieveGit_window:
  "getHistoryCommits git = Inr commits \<Longrightarrow>
   retrieveGit search git tm threshold =
     git_loop git commits []
       (git_window (search (map message commits) (query tm)) threshold (term_n tm))"
  by (simp add: retrieveGit_def git_window_def Let_def slice0_def)

lemma git_loop_Inr:
  "git_loop git commits acc w = Inr cs \<Longrightarrow> \<forall>i\<in>set w. 0 \<le> i \<Longrightarrow>
     (\<forall>i\<in>set w. nat i < length commits
         \<and> (\<exists>d. getChangeByHash git (hash (commits ! nat i)) = Inr d))
     \<and> cs = acc @ map (\<lambda>i. commit_chunk (commits ! nat i) (diff_of git commits i))
                    (filter (\<lambda>i. getChangeByHash git (hash (commits ! nat i)) \<noteq> Inr []) w)"
proof (induction w arbitrary: acc)
  case Nil
  then show ?case by simp
next
  case (Cons i w)
  from Cons.prems have i: "0 \<le> i" "i \<noteq> - 1" "\<forall>j\<in>set w. 0 \<le> j" by auto
  from Cons.prems(1) i have rng: "nat i < length commits"
    by (simp split: if_splits)
  from Cons.prems(1) i rng obtain d where d: "getChangeByHash git (hash (commits ! nat i)) = Inr d"
    by (cases "getChangeByHash git (hash (commits ! nat i))") simp_all
  show ?case
  proof (cases "d = []")
    case True
    with Cons.prems(1) i rng d have "git_loop git commits acc w = Inr cs" by simp
    from Cons.IH [OF this i(3)] True d rng show ?thesis by simp
  next
    case False
    with Cons.prems(1) i rng d
    have "git_loop git commits (acc @ [commit_chunk (commits ! nat i) d]) w = Inr cs" by simp
    from Cons.IH [OF this i(3)] False d rng show ?thesis by (simp add: diff_of_def)
  qed
qed

lemma git_loop_Inl:
  "\<forall>j\<in>set pre. 0 \<le> j \<and> nat j < length commits
       \<and> (\<exists>d. getChangeByHash git (hash (commits ! nat j)) = Inr d) \<Longrightarrow>
   0 \<le> i \<Longrightarrow> nat i < length commits \<Longrightarrow>
   getChangeByHash git (hash (commits ! nat i)) = Inl e \<Longrightarrow>
   git_loop git commits acc (pre @ i # post) = Inl (Thrown e)"
proof (induction pre arbitrary: acc)
  case Nil
  then show ?case by simp
next
  case (Cons j pre)
  from Cons.prems obtain d where "0 \<le> j" "nat j < length commits"
    "getChangeByHash git (hash (commits ! nat j)) = Inr d" by auto
  moreover from Cons have "\<And>acc. git_loop git commits acc (pre @ i # post) = Inl (Thrown e)"
    by simp
  ultimately show ?case by simp
qed

lemma sorted_indexes_set:
  "set (sorted_indexes results threshold) =
     {int i | i. i < length results \<and> num_gt (results ! i) threshold}"
  by (simp add: sorted_indexes_def set_array_sort passing_indexes_set)

lemma git_window_nonneg: "i \<in> set (git_window results threshold cap) \<Longrightarrow> 0 \<le> i"
  using slice0_subset [of "sorted_indexes results threshold" cap]
  by (auto simp: git_window_def sorted_indexes_set)

subsection \<open>The example run\<close>

lemma demo_window: "git_window (demo_search docs q) (Fin (1/2)) 2 = [0, 2]"
  by (simp add: git_window_def sorted_indexes_def passing_indexes_def score_compare_def
        results_at_def upt_rec slice0_def demo_search_def)

lemma demo_result:
  "retrieveGit demo_search demo_git demo_term (Fin (1/2)) =
     Inr [commit_chunk \<lparr>hash = str ''a'', message = str ''fix login bug''\<rparr> (str ''diff of a'')]"
proof -
  have g: "getHistoryCommits demo_git = Inr demo_commits" by (simp add: demo_git_def)
  have t: "term_n demo_term = 2" by (simp add: demo_term_def)
  show ?thesis
    unfolding retrieveGit_window [OF g] t demo_window
    by (simp add: demo_git_def demo_commits_def str_def)
qed

text \<open>
  Claim C1. For every array of scores and every threshold \<open>t\<close>, the indexes \<open>retrieveGit\<close>
  keeps (before the cut to \<open>term.n\<close>) are exactly the positions whose score is strictly
  greater than \<open>t\<close>, each once; and every chunk \<open>retrieveGit\<close> returns is the chunk of a
  commit whose score is strictly greater than \<open>t\<close>, so never one whose score equals \<open>t\<close>.
\<close>

theorem retrieveGit_threshold_strict:
  "set (sorted_indexes results t) = {int i | i. i < length results \<and> num_gt (results ! i) t}
   \<and> distinct (sorted_indexes results t)
   \<and> (getHistoryCommits git = Inr commits \<and> retrieveGit search git tm t = Inr chunks \<longrightarrow>
        (\<exists>js. chunks = map (\<lambda>j. commit_chunk (commits ! j) (diff_of git commits (int j))) js
           \<and> (\<forall>j\<in>set js. j < length (search (map message commits) (query tm))
                 \<and> num_gt (search (map message commits) (query tm) ! j) t
                 \<and> search (map message commits) (query tm) ! j \<noteq> t)))"
proof (intro conjI impI)
  show "set (sorted_indexes results t) = {int i | i. i < length results \<and> num_gt (results ! i) t}"
    by (rule sorted_indexes_set)
  show "distinct (sorted_indexes results t)"
    unfolding sorted_indexes_def distinct_array_sort passing_indexes_filter
    by (simp add: distinct_map)
next
  let ?results = "search (map message commits) (query tm)"
  let ?w = "git_window ?results t (term_n tm)"
  let ?keep = "filter (\<lambda>i. getChangeByHash git (hash (commits ! nat i)) \<noteq> Inr []) ?w"
  assume a: "getHistoryCommits git = Inr commits \<and> retrieveGit search git tm t = Inr chunks"
  then have "git_loop git commits [] ?w = Inr chunks"
    using retrieveGit_window [of git commits search tm t] by simp
  from git_loop_Inr [OF this] git_window_nonneg
  have cs: "chunks = map (\<lambda>i. commit_chunk (commits ! nat i) (diff_of git commits i)) ?keep"
    by (metis append_Nil)
  have sub: "set ?keep \<subseteq> {int i | i. i < length ?results \<and> num_gt (?results ! i) t}"
    using slice0_subset [of "sorted_indexes ?results t" "term_n tm"]
    by (auto simp: git_window_def sorted_indexes_set)
  have "chunks = map (\<lambda>j. commit_chunk (commits ! j) (diff_of git commits (int j))) (map nat ?keep)"
    unfolding map_map comp_def
    by (subst cs, rule map_cong) (use sub in auto)
  moreover have "\<forall>j\<in>set (map nat ?keep). j < length ?results \<and> num_gt (?results ! j) t
       \<and> ?results ! j \<noteq> t"
    using sub num_gt_irrefl by fastforce
  ultimately show "\<exists>js. chunks = map (\<lambda>j. commit_chunk (commits ! j) (diff_of git commits (int j))) js
           \<and> (\<forall>j\<in>set js. j < length ?results \<and> num_gt (?results ! j) t \<and> ?results ! j \<noteq> t)"
    by blast
qed

text \<open>Four commits with scores \<open>7/8, 1/2, 3/4, 5/8\<close> and threshold \<open>1/2\<close>: commit \<open>b\<close>,
  whose score equals the threshold, is not returned.\<close>

theorem retrieveGit_threshold_strict_witness:
  "getHistoryCommits demo_git = Inr demo_commits
   \<and> retrieveGit demo_search demo_git demo_term (Fin (1/2)) =
       Inr [commit_chunk \<lparr>hash = str ''a'', message = str ''fix login bug''\<rparr> (str ''diff of a'')]
   \<and> demo_search (map message demo_commits) (query demo_term) ! 1 = Fin (1/2)
   \<and> (\<exists>js. [commit_chunk \<lparr>hash = str ''a'', message = str ''fix login bug''\<rparr> (str ''diff of a'')]
              = map (\<lambda>j. commit_chunk (demo_commits ! j) (diff_of demo_git demo_commits (int j))) js
         \<and> (\<forall>j\<in>set js. j < length (demo_search (map message demo_commits) (query demo_term))
               \<and> num_gt (demo_search (map message demo_commits) (query demo_term) ! j) (Fin (1/2))
               \<and> demo_search (map message demo_commits) (query demo_term) ! j \<noteq> Fin (1/2)))"
proof -
  have h: "getHistoryCommits demo_git = Inr demo_commits
     \<and> retrieveGit demo_search demo_git demo_term (Fin (1/2)) =
       Inr [commit_chunk \<lparr>hash = str ''a'', message = str ''fix login bug''\<rparr> (str ''diff of a'')]"
    by (simp add: demo_result) (simp add: demo_git_def)
  have s: "demo_search (map message demo_commits) (query demo_term) ! 1 = Fin (1/2)"
    by (simp add: demo_search_def)
  from retrieveGit_threshold_strict
         [where git = demo_git and commits = demo_commits and search = demo_search
            and tm = demo_term and t = "Fin (1/2)"] h s
  show ?thesis by blast
qed

text \<open>
  Claim C2. In \<open>retrieveGit\<close> the surviving indexes are positions of the score array, and
  of two of them the one placed first has the strictly greater score, or the same score and
  the smaller index: the order is descending by score, with ties in ascending index order.
  The cut to \<open>term.n\<close> is applied to this sorted list.
\<close>

theorem retrieveGit_sorted_then_truncated:
  "(\<forall>a\<in>set (sorted_indexes results t). 0 \<le> a \<and> nat a < length results)
   \<and> (\<forall>i j. i < j \<and> j < length (sorted_indexes results t) \<longrightarrow>
         num_gt (results_at results (sorted_indexes results t ! i))
                (results_at results (sorted_indexes results t ! j))
         \<or> (results_at results (sorted_indexes results t ! i)
              = results_at results (sorted_indexes results t ! j)
            \<and> sorted_indexes results t ! i < sorted_indexes results t ! j))
   \<and> (getHistoryCommits git = Inr commits \<longrightarrow>
        retrieveGit search git tm t =
          git_loop git commits []
            (slice0 (sorted_indexes (search (map message commits) (query tm)) t)
               (term_n tm)))"
proof (intro conjI impI ballI)
  fix a assume "a \<in> set (sorted_indexes results t)"
  then show "0 \<le> a" "nat a < length results" by (auto simp: sorted_indexes_set)
next
  show "\<forall>i j. i < j \<and> j < length (sorted_indexes results t) \<longrightarrow>
         num_gt (results_at results (sorted_indexes results t ! i))
                (results_at results (sorted_indexes results t ! j))
         \<or> (results_at results (sorted_indexes results t ! i)
              = results_at results (sorted_indexes results t ! j)
            \<and> sorted_indexes results t ! i < sorted_indexes results t ! j)"
    using sorted_indexes_ranked [of results t]
    by (simp add: sorted_wrt_iff_nth_less ranked_before_def)
next
  assume "getHistoryCommits git = Inr commits"
  then show "retrieveGit search git tm t =
          git_loop git commits []
            (slice0 (sorted_indexes (search (map message commits) (query tm)) t)
               (term_n tm))"
    by (simp add: retrieveGit_window git_window_def)
qed

text \<open>Scores \<open>1/2, 7/8, 1/2, 1/4\<close> with threshold \<open>1/4\<close>: the order is \<open>1, 0, 2\<close>, and
  the tie between \<open>0\<close> and \<open>2\<close> keeps the index order.\<close>

theorem retrieveGit_sorted_then_truncated_witness:
  "sorted_indexes [Fin (1/2), Fin (7/8), Fin (1/2), Fin (1/4)] (Fin (1/4)) = [1, 0, 2]
   \<and> results_at [Fin (1/2), Fin (7/8), Fin (1/2), Fin (1/4)] 0
       = results_at [Fin (1/2), Fin (7/8), Fin (1/2), Fin (1/4)] 2
   \<and> sorted_indexes [Fin (1/2), Fin (7/8), Fin (1/2), Fin (1/4)] (Fin (1/4)) ! 1
       < sorted_indexes [Fin (1/2), Fin (7/8), Fin (1/2), Fin (1/4)] (Fin (1/4)) ! 2
   \<and> retrieveGit demo_search demo_git demo_term (Fin (1/2)) =
       git_loop demo_git demo_commits []
         (slice0 (sorted_indexes (demo_search (map message demo_commits) (query demo_term))
                    (Fin (1/2)))
            (term_n demo_term))"
proof -
  let ?rs = "[Fin (1/2), Fin (7/8), Fin (1/2), Fin (1/4)]"
  have e: "sorted_indexes ?rs (Fin (1/4)) = [1, 0, 2]"
    by (simp add: sorted_indexes_def passing_indexes_def score_compare_def results_at_def upt_rec)
  have h: "(1::nat) < 2 \<and> 2 < length (sorted_indexes ?rs (Fin (1/4)))"
    unfolding e by simp
  have ng: "\<not> num_gt (results_at ?rs (sorted_indexes ?rs (Fin (1/4)) ! 1))
                     (results_at ?rs (sorted_indexes ?rs (Fin (1/4)) ! 2))"
    unfolding e by (simp add: results_at_def)
  have q: "results_at ?rs 0 = results_at ?rs 2" by (simp add: results_at_def)
  from retrieveGit_sorted_then_truncated [where results = ?rs and t = "Fin (1/4)"] h ng
  have "sorted_indexes ?rs (Fin (1/4)) ! 1 < sorted_indexes ?rs (Fin (1/4)) ! 2"
    by blast
  moreover have g: "getHistoryCommits demo_git = Inr demo_commits"
    by (simp add: demo_git_def)
  note retrieveGit_sorted_then_truncated
         [where git = demo_git and commits = demo_commits and search = demo_search
            and tm = demo_term and t = "Fin (1/2)",
          THEN conjunct2, THEN conjunct2, THEN mp, OF g]
  ultimately show ?thesis using e q by (intro conjI)
qed

text \<open>
  Claim C3. When \<open>retrieveGit\<close> returns, its chunks are those of the indexes of the window
  (the sorted passing indexes cut to \<open>term.n\<close>) whose diff is not empty, in the window's
  order: a commit of the window whose diff is the empty string gives no chunk, each such
  commit makes the result one chunk shorter than the window, and no index outside the
  window takes its place.
\<close>

theorem retrieveGit_empty_diff_skipped:
  assumes "getHistoryCommits git = Inr commits"
    and "retrieveGit search git tm t = Inr chunks"
    and "w = git_window (search (map message commits) (query tm)) t (term_n tm)"
  shows "chunks = map (\<lambda>i. commit_chunk (commits ! nat i) (diff_of git commits i))
                    (filter (\<lambda>i. getChangeByHash git (hash (commits ! nat i)) \<noteq> Inr []) w)
     \<and> length chunks
         + length (filter (\<lambda>i. getChangeByHash git (hash (commits ! nat i)) = Inr []) w)
         = length w
     \<and> (\<forall>i\<in>set w. getChangeByHash git (hash (commits ! nat i)) = Inr [] \<longrightarrow>
           (\<forall>c\<in>set chunks. filepath c \<noteq> hash (commits ! nat i)))"
proof -
  let ?P = "\<lambda>i. getChangeByHash git (hash (commits ! nat i)) \<noteq> Inr []"
  from assms have "git_loop git commits [] w = Inr chunks"
    using retrieveGit_window [of git commits search tm t] by simp
  from git_loop_Inr [OF this] git_window_nonneg assms(3)
  have cs: "chunks = map (\<lambda>i. commit_chunk (commits ! nat i) (diff_of git commits i)) (filter ?P w)"
    by (metis append_Nil)
  have len: "length chunks + length (filter (\<lambda>i. \<not> ?P i) w) = length w"
    using sum_length_filter_compl [of ?P w] by (subst cs) simp
  have skip: "\<forall>i\<in>set w. getChangeByHash git (hash (commits ! nat i)) = Inr [] \<longrightarrow>
           (\<forall>c\<in>set chunks. filepath c \<noteq> hash (commits ! nat i))"
    by (subst cs) (auto simp: commit_chunk_def)
  from cs len skip show ?thesis by simp
qed

text \<open>With \<open>term.n = 2\<close> the window is \<open>[0, 2]\<close>; commit \<open>c\<close> at index \<open>2\<close> has an empty
  diff, and the result is the one chunk of commit \<open>a\<close>: commit \<open>d\<close>, which passes the
  threshold but lies outside the window, is not used.\<close>

theorem retrieveGit_empty_diff_skipped_witness:
  "git_window (demo_search (map message demo_commits) (query demo_term)) (Fin (1/2))
       (term_n demo_term) = [0, 2]
   \<and> getChangeByHash demo_git (hash (demo_commits ! nat 2)) = Inr []
   \<and> retrieveGit demo_search demo_git demo_term (Fin (1/2)) =
       Inr [commit_chunk \<lparr>hash = str ''a'', message = str ''fix login bug''\<rparr> (str ''diff of a'')]
   \<and> length [commit_chunk \<lparr>hash = str ''a'', message = str ''fix login bug''\<rparr> (str ''diff of a'')]
       + length (filter (\<lambda>i. getChangeByHash demo_git (hash (demo_commits ! nat i)) = Inr [])
                   [0, 2])
       = length [0, 2 :: int]"
proof -
  have w: "git_window (demo_search (map message demo_commits) (query demo_term))
             (Fin (1/2)) (term_n demo_term) = [0, 2]"
    by (simp add: demo_window demo_term_def)
  have g: "getHistoryCommits demo_git = Inr demo_commits" by (simp add: demo_git_def)
  have e: "getChangeByHash demo_git (hash (demo_commits ! nat 2)) = Inr []"
    by (simp add: demo_git_def demo_commits_def)
  from retrieveGit_empty_diff_skipped [OF g demo_result w [symmetric]]
  have "length [commit_chunk \<lparr>hash = str ''a'', message = str ''fix login bug''\<rparr> (str ''diff of a'')]
       + length (filter (\<lambda>i. getChangeByHash demo_git (hash (demo_commits ! nat i)) = Inr [])
                   [0, 2])
       = length [0, 2 :: int]"
    by blast
  with w e demo_result show ?thesis by blast
qed

text \<open>
  Claim C7. An error thrown by \<open>getHistoryCommits\<close> is thrown by \<open>retrieveGit\<close>; the first
  error thrown by \<open>getChangeByHash\<close> on a commit of the window is thrown by \<open>retrieveGit\<close>;
  and whenever \<open>retrieveGit\<close> returns a value, \<open>getHistoryCommits\<close> and every
  \<open>getChangeByHash\<close> call on the window have returned: no failure becomes a result.
\<close>

theorem retrieveGit_propagates_git_errors:
  "(getHistoryCommits git = Inl e \<longrightarrow> retrieveGit search git tm t = Inl (Thrown e))
   \<and> (getHistoryCommits git = Inr commits
        \<and> git_window (search (map message commits) (query tm)) t (term_n tm)
            = pre @ i # post
        \<and> (\<forall>j\<in>set (pre @ [i]). nat j < length commits)
        \<and> (\<forall>j\<in>set pre. \<exists>d. getChangeByHash git (hash (commits ! nat j)) = Inr d)
        \<and> getChangeByHash git (hash (commits ! nat i)) = Inl e
      \<longrightarrow> retrieveGit search git tm t = Inl (Thrown e))
   \<and> (retrieveGit search git tm t = Inr chunks \<longrightarrow>
        (\<exists>cms. getHistoryCommits git = Inr cms
           \<and> (\<forall>j\<in>set (git_window (search (map message cms) (query tm)) t (term_n tm)).
                 \<exists>d. getChangeByHash git (hash (cms ! nat j)) = Inr d)))"
proof (intro conjI impI)
  assume "getHistoryCommits git = Inl e"
  then show "retrieveGit search git tm t = Inl (Thrown e)"
    by (simp add: retrieveGit_def)
next
  let ?w = "git_window (search (map message commits) (query tm)) t (term_n tm)"
  assume a: "getHistoryCommits git = Inr commits \<and> ?w = pre @ i # post
        \<and> (\<forall>j\<in>set (pre @ [i]). nat j < length commits)
        \<and> (\<forall>j\<in>set pre. \<exists>d. getChangeByHash git (hash (commits ! nat j)) = Inr d)
        \<and> getChangeByHash git (hash (commits ! nat i)) = Inl e"
  then have nn: "\<forall>j\<in>set (pre @ i # post). 0 \<le> j"
    using git_window_nonneg [of _ "search (map message commits) (query tm)" t "term_n tm"]
    by simp
  from a nn have "git_loop git commits [] (pre @ i # post) = Inl (Thrown e)"
    by (intro git_loop_Inl) auto
  with a show "retrieveGit search git tm t = Inl (Thrown e)"
    using retrieveGit_window [of git commits search tm t] by simp
next
  assume r: "retrieveGit search git tm t = Inr chunks"
  then obtain cms where c: "getHistoryCommits git = Inr cms"
    by (cases "getHistoryCommits git") (simp_all add: retrieveGit_def)
  let ?w = "git_window (search (map message cms) (query tm)) t (term_n tm)"
  from r c have "git_loop git cms [] ?w = Inr chunks"
    using retrieveGit_window [of git cms search tm t] by simp
  from git_loop_Inr [OF this] git_window_nonneg
  have "\<forall>j\<in>set ?w. \<exists>d. getChangeByHash git (hash (cms ! nat j)) = Inr d"
    by blast
  with c show "\<exists>cms. getHistoryCommits git = Inr cms
           \<and> (\<forall>j\<in>set (git_window (search (map message cms) (query tm)) t (term_n tm)).
                 \<exists>d. getChangeByHash git (hash (cms ! nat j)) = Inr d)"
    by blast
qed

text \<open>A collaborator that cannot list the commits, and one that cannot read the diff of
  commit \<open>c\<close>.\<close>

theorem retrieveGit_propagates_git_errors_witness:
  "retrieveGit demo_search (demo_git\<lparr>getHistoryCommits := Inl ''not a repository''\<rparr>) demo_term
       (Fin (1/2)) = Inl (Thrown ''not a repository'')
   \<and> retrieveGit demo_search
       (demo_git\<lparr>getChangeByHash :=
          (\<lambda>h. if h = str ''c'' then Inl ''bad object'' else Inr (str ''diff''))\<rparr>)
       demo_term (Fin (1/2)) = Inl (Thrown ''bad object'')
   \<and> (\<exists>cms. getHistoryCommits demo_git = Inr cms
         \<and> (\<forall>j\<in>set (git_window (demo_search (map message cms) (query demo_term)) (Fin (1/2))
                       (term_n demo_term)).
               \<exists>d. getChangeByHash demo_git (hash (cms ! nat j)) = Inr d))"
proof -
  let ?g1 = "demo_git\<lparr>getHistoryCommits := Inl ''not a repository''\<rparr>"
  let ?g2 = "demo_git\<lparr>getChangeByHash :=
          (\<lambda>h. if h = str ''c'' then Inl ''bad object'' else Inr (str ''diff''))\<rparr>"
  have h1: "getHistoryCommits ?g1 = Inl ''not a repository''" by simp
  have h2: "getHistoryCommits ?g2 = Inr demo_commits
        \<and> git_window (demo_search (map message demo_commits) (query demo_term)) (Fin (1/2))
            (term_n demo_term) = [0] @ 2 # []
        \<and> (\<forall>j\<in>set ([0] @ [2::int]). nat j < length demo_commits)
        \<and> (\<forall>j\<in>set [0::int]. \<exists>d. getChangeByHash ?g2 (hash (demo_commits ! nat j)) = Inr d)
        \<and> getChangeByHash ?g2 (hash (demo_commits ! nat 2)) = Inl ''bad object''"
    by (simp add: demo_window demo_term_def) (simp add: demo_git_def demo_commits_def str_def)
  from retrieveGit_propagates_git_errors
         [where git = ?g1 and e = "''not a repository''" and search = demo_search
            and tm = demo_term and t = "Fin (1/2)"] h1
  have r1: "retrieveGit demo_search ?g1 demo_term (Fin (1/2)) = Inl (Thrown ''not a repository'')"
    by blast
  from retrieveGit_propagates_git_errors
         [where git = ?g2 and e = "''bad object''" and search = demo_search
            and tm = demo_term and t = "Fin (1/2)" and commits = demo_commits
            and pre = "[0]" and i = 2 and post = "[]"] h2
  have r2: "retrieveGit demo_search ?g2 demo_term (Fin (1/2)) = Inl (Thrown ''bad object'')"
    by blast
  note r3 =
    retrieveGit_propagates_git_errors
      [where git = demo_git and search = demo_search and tm = demo_term and t = "Fin (1/2)",
       THEN conjunct2, THEN conjunct2, THEN mp, OF demo_result]
  from r1 r2 r3 show ?thesis by (intro conjI)
qed

section \<open>Properties of the full-text strategy\<close>

text \<open>
  Claim C4. \<open>retrieveFts\<close> always returns a value, never an exception; when the engine
  throws on the call, the result is the empty sequence and one warning carrying the error
  is logged.
\<close>

theorem retrieveFts_fail_soft:
  "(\<exists>cs. returned (retrieveFts retrieve bm25Threshold tm) = Inr cs)
   \<and> (trim (query tm) \<noteq> [] \<and> retrieve (retrieve_call bm25Threshold tm) = Inl e \<longrightarrow>
        retrieveFts retrieve bm25Threshold tm =
          \<lparr>returned = Inr [], engine_calls = [retrieve_call bm25Threshold tm],
           warnings = [(str ''Error retrieving from FTS:'', e)]\<rparr>)"
  by (cases "retrieve (retrieve_call bm25Threshold tm)")
     (simp_all add: retrieveFts_def retrieveFts_try_def)

text \<open>An engine that throws on every call, asked for \<open>login bug\<close>.\<close>

theorem retrieveFts_fail_soft_witness:
  "trim (query demo_term) \<noteq> []
   \<and> demo_failing_engine (retrieve_call (Fin 0) demo_term) = Inl ''database disk image is malformed''
   \<and> retrieveFts demo_failing_engine (Fin 0) demo_term =
       \<lparr>returned = Inr [], engine_calls = [retrieve_call (Fin 0) demo_term],
        warnings = [(str ''Error retrieving from FTS:'', ''database disk image is malformed'')]\<rparr>"
proof -
  have h: "trim (query demo_term) \<noteq> []
     \<and> demo_failing_engine (retrieve_call (Fin 0) demo_term)
         = Inl ''database disk image is malformed''"
    by (simp add: demo_term_def demo_failing_engine_def trim_def is_ws_def str_def)
  from retrieveFts_fail_soft
         [where retrieve = demo_failing_engine and bm25Threshold = "Fin 0" and tm = demo_term
            and e = "''database disk image is malformed''"] h
  show ?thesis by blast
qed

text \<open>
  Claim C5. When the query is empty after trimming, \<open>retrieveFts\<close> returns the empty
  sequence, makes no call to the engine and logs nothing.
\<close>

theorem retrieveFts_empty_query:
  "trim (query tm) = [] \<Longrightarrow>
   retrieveFts retrieve bm25Threshold tm =
     \<lparr>returned = Inr [], engine_calls = [], warnings = []\<rparr>"
  by (simp add: retrieveFts_def retrieveFts_try_def)

text \<open>The query of three spaces, with an engine that would throw if it were called.\<close>

theorem retrieveFts_empty_query_witness:
  "trim (query (demo_term\<lparr>query := str ''   ''\<rparr>)) = []
   \<and> retrieveFts demo_failing_engine (Fin 0) (demo_term\<lparr>query := str ''   ''\<rparr>) =
       \<lparr>returned = Inr [], engine_calls = [], warnings = []\<rparr>"
proof -
  have h: "trim (query (demo_term\<lparr>query := str ''   ''\<rparr>)) = []"
    by (simp add: trim_def is_ws_def str_def)
  from retrieveFts_empty_query [OF h, of demo_failing_engine "Fin 0"] h
  show ?thesis by blast
qed

subsection \<open>The query string\<close>

text \<open>\<open>split(" ")\<close> cuts at every single space: the pieces contain no space, and put
  together again with single spaces they give the string that was cut.\<close>

lemma split_space_nonempty: "split_space s \<noteq> []"
  by (induction s) (simp_all split: list.split)

lemma split_space_no_space: "t \<in> set (split_space s) \<Longrightarrow> 0x20 \<notin> set t"
  by (induction s arbitrary: t) (auto split: if_splits list.splits)

lemma join_Cons: "ts \<noteq> [] \<Longrightarrow> join sep (t # ts) = t @ sep @ join sep ts"
  by (cases ts) simp_all

lemma split_space_join: "join [0x20] (split_space s) = s"
proof (induction s)
  case Nil
  show ?case by simp
next
  case (Cons c s)
  show ?case
  proof (cases "c = 0x20")
    case True
    with Cons show ?thesis by (simp add: join_Cons split_space_nonempty)
  next
    case False
    obtain t ts where ts: "split_space s = t # ts"
      using split_space_nonempty [of s] by (cases "split_space s") auto
    with Cons False show ?thesis by (cases ts) simp_all
  qed
qed

text \<open>
  Claim C6, as stated, fails: for the query \<open>a  b\<close> (two spaces) the tokens that white
  space separates are \<open>a\<close> and \<open>b\<close>, but the engine is called with
  \<open>"a" OR "" OR "b"\<close>.
\<close>

theorem retrieveFts_whitespace_tokens_counterexample:
  "trim (str ''a  b'') \<noteq> []
   \<and> map call_query
         (engine_calls (retrieveFts demo_engine (Fin 0) (demo_term\<lparr>query := str ''a  b''\<rparr>)))
       = [str ''\"a\" OR \"\" OR \"b\"'']
   \<and> spec_fts_query (str ''a  b'') = str ''\"a\" OR \"b\"''
   \<and> map call_query
         (engine_calls (retrieveFts demo_engine (Fin 0) (demo_term\<lparr>query := str ''a  b''\<rparr>)))
       \<noteq> [spec_fts_query (str ''a  b'')]"
  by (simp add: retrieveFts_def retrieveFts_try_def retrieve_call_def fts_query_def
        spec_fts_query_def spec_whitespace_tokens_def demo_engine_def quoted_def
        trim_def is_ws_def str_def)

text \<open>
  Claim C6, amended. When the query is not empty after trimming, \<open>retrieveFts\<close> calls the
  engine once, with the query string made of the pieces of the trimmed input between single
  space characters, each in double quotes, joined with \<open>OR\<close>. The pieces contain no
  space and, joined with single spaces, give back the trimmed input: two spaces in a row
  give an empty piece, and other white space does not cut.
\<close>

theorem retrieveFts_query_single_space:
  "trim (query tm) \<noteq> [] \<Longrightarrow>
   engine_calls (retrieveFts retrieve bm25Threshold tm) = [retrieve_call bm25Threshold tm]
   \<and> call_query (retrieve_call bm25Threshold tm) =
        join (str '' OR '') (map quoted (split_space (trim (query tm))))
   \<and> join (str '' '') (split_space (trim (query tm))) = trim (query tm)
   \<and> (\<forall>piece\<in>set (split_space (trim (query tm))). 0x20 \<notin> set piece)"
  by (cases "retrieve (retrieve_call bm25Threshold tm)")
     (simp_all add: retrieveFts_def retrieveFts_try_def retrieve_call_def fts_query_def
        split_space_join split_space_no_space str_def)

text \<open>The query \<open>a  b\<close> with a space on each side.\<close>

theorem retrieveFts_query_single_space_witness:
  "trim (query (demo_term\<lparr>query := str '' a  b ''\<rparr>)) \<noteq> []
   \<and> engine_calls (retrieveFts demo_engine (Fin 0) (demo_term\<lparr>query := str '' a  b ''\<rparr>))
       = [retrieve_call (Fin 0) (demo_term\<lparr>query := str '' a  b ''\<rparr>)]
   \<and> call_query (retrieve_call (Fin 0) (demo_term\<lparr>query := str '' a  b ''\<rparr>))
       = str ''\"a\" OR \"\" OR \"b\"''"
proof -
  have h: "trim (query (demo_term\<lparr>query := str '' a  b ''\<rparr>)) \<noteq> []"
    by (simp add: trim_def is_ws_def str_def)
  have s: "split_space (trim (query (demo_term\<lparr>query := str '' a  b ''\<rparr>)))
             = [str ''a'', [], str ''b'']"
    by (simp add: trim_def is_ws_def str_def)
  from retrieveFts_query_single_space [OF h, of demo_engine "Fin 0"]
  have "engine_calls (retrieveFts demo_engine (Fin 0) (demo_term\<lparr>query := str '' a  b ''\<rparr>))
         = [retrieve_call (Fin 0) (demo_term\<lparr>query := str '' a  b ''\<rparr>)]"
    and "call_query (retrieve_call (Fin 0) (demo_term\<lparr>query := str '' a  b ''\<rparr>))
         = join (str '' OR '')
             (map quoted (split_space (trim (query (demo_term\<lparr>query := str '' a  b ''\<rparr>)))))"
    by blast+
  moreover have "join (str '' OR '') (map quoted [str ''a'', [], str ''b''])
      = str ''\"a\" OR \"\" OR \"b\"''"
    by (simp add: quoted_def str_def)
  ultimately show ?thesis using h s by simp
qed

section \<open>Properties of the catalog store handle\<close>

text \<open>The statements executed change neither the static fields nor the faults; they add
  one call to the trace.\<close>

lemma db_exec_frame:
  "db_exec h stmt w = (r, w') \<Longrightarrow>
     db w' = db w \<and> indexSqlitePath w' = indexSqlitePath w \<and> faults w' = faults w
     \<and> next_handle w' = next_handle w \<and> events w' = events w @ [Exec h stmt]"
  by (cases stmt) (auto simp: db_exec_def Let_def split: if_splits option.splits)

lemma createTables_frame:
  assumes "createTables h w = (r, w')"
  shows "db w' = db w \<and> indexSqlitePath w' = indexSqlitePath w"
proof -
  obtain r1 w1 where 1: "db_exec h create_tag_catalog w = (r1, w1)"
    by (cases "db_exec h create_tag_catalog w") auto
  show ?thesis
  proof (cases r1)
    case (Inl e)
    with assms 1 have "w' = w1" by (simp add: createTables_def)
    with db_exec_frame [OF 1] show ?thesis by simp
  next
    case (Inr u)
    with assms 1 have "db_exec h create_global_cache w1 = (r, w')"
      by (simp add: createTables_def)
    from db_exec_frame [OF this] db_exec_frame [OF 1] show ?thesis by simp
  qed
qed

text \<open>A call of \<open>get\<close> that returns leaves the returned handle in \<open>SqliteDb.db\<close>.\<close>

lemma get_Inr:
  assumes "get w = (Inr r, w')"
  shows "db w' = r \<and> r \<noteq> None"
proof (cases "db w \<noteq> None \<and> existsSync w (indexSqlitePath w)")
  case True
  with assms have "r = db w" "w' = w" by (auto simp: get_def)
  with True show ?thesis by simp
next
  case False
  define p where "p = currentIndexSqlitePath w"
  obtain r2 w2 where o: "sqlite_open p (w\<lparr>indexSqlitePath := p\<rparr>) = (r2, w2)"
    by (cases "sqlite_open p (w\<lparr>indexSqlitePath := p\<rparr>)") auto
  from False have g: "get w =
     (case sqlite_open p (w\<lparr>indexSqlitePath := p\<rparr>) of
        (Inl e, w2) \<Rightarrow> (Inl e, w2)
      | (Inr h, w2) \<Rightarrow>
          (let w3 = w2\<lparr>db := Some h\<rparr>
           in case createTables h w3 of
                (Inl e, w4) \<Rightarrow> (Inl e, w4)
              | (Inr u, w4) \<Rightarrow> (Inr (db w4), w4)))"
    unfolding get_def Let_def p_def by auto
  show ?thesis
  proof (cases r2)
    case (Inl e)
    with assms g o show ?thesis by simp
  next
    case (Inr h)
    obtain r4 w4 where c: "createTables h (w2\<lparr>db := Some h\<rparr>) = (r4, w4)"
      by (cases "createTables h (w2\<lparr>db := Some h\<rparr>)") auto
    show ?thesis
    proof (cases r4)
      case (Inl e)
      with assms g o c \<open>r2 = Inr h\<close> show ?thesis by simp
    next
      case u: (Inr u)
      with assms g o c \<open>r2 = Inr h\<close> have "r = db w4" "w' = w4" by auto
      with createTables_frame [OF c] show ?thesis by simp
    qed
  qed
qed

text \<open>\<open>CREATE TABLE IF NOT EXISTS\<close> leaves the table there and every table that was there
  as it was.\<close>

lemma db_exec_create:
  assumes "\<not> faults w (Exec h (CreateTableIfNotExists name cols))"
    and "files w (hpath h) = Some d"
  shows "\<exists>w' d'. db_exec h (CreateTableIfNotExists name cols) w = (Inr (), w')
     \<and> files w' (hpath h) = Some d' \<and> d' name \<noteq> None
     \<and> (\<forall>nm tb. d nm = Some tb \<longrightarrow> d' nm = Some tb)"
  using assms by (cases "d name") (auto simp: db_exec_def Let_def)

lemma createTables_ok:
  assumes "\<forall>stmt. \<not> faults w (Exec h stmt)" and "files w (hpath h) = Some d"
  shows "\<exists>w' d'. createTables h w = (Inr (), w')
     \<and> db w' = db w \<and> indexSqlitePath w' = indexSqlitePath w
     \<and> events w' = events w @ [Exec h create_tag_catalog, Exec h create_global_cache]
     \<and> files w' (hpath h) = Some d'
     \<and> d' (str ''tag_catalog'') \<noteq> None \<and> d' (str ''global_cache'') \<noteq> None
     \<and> (\<forall>nm tb. d nm = Some tb \<longrightarrow> d' nm = Some tb)"
proof -
  from assms(1) have f1: "\<not> faults w (Exec h create_tag_catalog)" by blast
  from db_exec_create [OF f1 [unfolded create_tag_catalog_def] assms(2)]
  obtain w1 d1 where 1: "db_exec h create_tag_catalog w = (Inr (), w1)"
    "files w1 (hpath h) = Some d1" "d1 (str ''tag_catalog'') \<noteq> None"
    "\<forall>nm tb. d nm = Some tb \<longrightarrow> d1 nm = Some tb"
    unfolding create_tag_catalog_def by blast
  note fr1 = db_exec_frame [OF 1(1)]
  from assms(1) fr1 have f2: "\<not> faults w1 (Exec h create_global_cache)" by simp
  from db_exec_create [OF f2 [unfolded create_global_cache_def] 1(2)]
  obtain w2 d2 where 2: "db_exec h create_global_cache w1 = (Inr (), w2)"
    "files w2 (hpath h) = Some d2" "d2 (str ''global_cache'') \<noteq> None"
    "\<forall>nm tb. d1 nm = Some tb \<longrightarrow> d2 nm = Some tb"
    unfolding create_global_cache_def by blast
  note fr2 = db_exec_frame [OF 2(1)]
  from 1(3) obtain tb where "d1 (str ''tag_catalog'') = Some tb" by auto
  with 2(4) have t: "d2 (str ''tag_catalog'') \<noteq> None" by simp
  from 1(4) 2(4) have k: "\<forall>nm tb. d nm = Some tb \<longrightarrow> d2 nm = Some tb" by simp
  from 1(1) 2(1) have c: "createTables h w = (Inr (), w2)" by (simp add: createTables_def)
  from fr1 fr2 have e: "db w2 = db w" "indexSqlitePath w2 = indexSqlitePath w"
    "events w2 = events w @ [Exec h create_tag_catalog, Exec h create_global_cache]"
    by simp_all
  from c e 2(2) t 2(3) k show ?thesis by blast
qed

text \<open>
  Claim C9. If a call of \<open>get\<close> has returned a handle and, whatever happened to the world
  since, the static fields are as that call left them and the store file exists, the next
  call returns the same handle and changes nothing: no call to \<open>sqlite.open\<close>, no
  statement executed. If no handle is cached or the store file is missing, and the store
  does not fail, \<open>get\<close> opens the store at the current path, which gives a new handle,
  executes the two \<open>CREATE TABLE IF NOT EXISTS\<close> statements on it and caches and returns
  it; afterwards both tables exist, and every table the file had before is unchanged.
\<close>

theorem SqliteDb_get_cached_or_reopened:
  "(get w0 = (Inr r, w1) \<and> db w2 = db w1 \<and> indexSqlitePath w2 = indexSqlitePath w1
      \<and> existsSync w2 (indexSqlitePath w2)
    \<longrightarrow> r \<noteq> None \<and> get w2 = (Inr r, w2))
   \<and> ((db w = None \<or> \<not> existsSync w (indexSqlitePath w))
      \<and> p = currentIndexSqlitePath w
      \<and> \<not> faults w (Open p) \<and> (\<forall>h stmt. \<not> faults w (Exec h stmt))
    \<longrightarrow> (\<exists>h w'. get w = (Inr (Some h), w')
           \<and> h = \<lparr>hid = next_handle w, hpath = p\<rparr>
           \<and> db w' = Some h \<and> indexSqlitePath w' = p
           \<and> events w' = events w @ [Open p, Exec h create_tag_catalog, Exec h create_global_cache]
           \<and> (\<exists>d. files w' p = Some d
                 \<and> d (str ''tag_catalog'') \<noteq> None \<and> d (str ''global_cache'') \<noteq> None
                 \<and> (\<forall>d0 nm tb. files w p = Some d0 \<and> d0 nm = Some tb \<longrightarrow> d nm = Some tb))))"
proof (intro conjI impI)
  assume a: "get w0 = (Inr r, w1) \<and> db w2 = db w1 \<and> indexSqlitePath w2 = indexSqlitePath w1
      \<and> existsSync w2 (indexSqlitePath w2)"
  with get_Inr [of w0 r w1] have c: "db w2 = r" "db w2 \<noteq> None" "existsSync w2 (indexSqlitePath w2)"
    by auto
  from c show "r \<noteq> None" by simp
  from c show "get w2 = (Inr r, w2)"
    by (simp add: get_def)
next
  assume a: "(db w = None \<or> \<not> existsSync w (indexSqlitePath w))
      \<and> p = currentIndexSqlitePath w
      \<and> \<not> faults w (Open p) \<and> (\<forall>h stmt. \<not> faults w (Exec h stmt))"
  define h where "h = \<lparr>hid = next_handle w, hpath = p\<rparr>"
  define w2 where "w2 = w\<lparr>indexSqlitePath := p, events := events w @ [Open p],
      files := (case files w p of None \<Rightarrow> (files w)(p \<mapsto> Map.empty) | Some d \<Rightarrow> files w),
      next_handle := Suc (next_handle w)\<rparr>"
  define w3 where "w3 = w2\<lparr>db := Some h\<rparr>"
  have hp: "hpath h = p" by (simp add: h_def)
  obtain d3 where d3: "files w3 (hpath h) = Some d3"
    "\<forall>d0 nm tb. files w p = Some d0 \<and> d0 nm = Some tb \<longrightarrow> d3 nm = Some tb"
    by (cases "files w p") (simp_all add: w3_def w2_def hp)
  from a have "\<forall>stmt. \<not> faults w (Exec h stmt)" by blast
  then have f3: "\<forall>stmt. \<not> faults w3 (Exec h stmt)" by (simp add: w3_def w2_def)
  from createTables_ok [OF f3 d3(1)] obtain w4 d4 where
    4: "createTables h w3 = (Inr (), w4)" "db w4 = db w3" "indexSqlitePath w4 = indexSqlitePath w3"
       "events w4 = events w3 @ [Exec h create_tag_catalog, Exec h create_global_cache]"
       "files w4 (hpath h) = Some d4"
       "d4 (str ''tag_catalog'') \<noteq> None" "d4 (str ''global_cache'') \<noteq> None"
       "\<forall>nm tb. d3 nm = Some tb \<longrightarrow> d4 nm = Some tb"
    by blast
  from a have nf: "\<not> faults w (Open p)" by blast
  have o: "sqlite_open p (w\<lparr>indexSqlitePath := p\<rparr>) = (Inr h, w2)"
    using nf by (cases "files w p") (simp_all add: sqlite_open_def Let_def h_def w2_def)
  from a have nc: "\<not> (db w \<noteq> None \<and> existsSync w (indexSqlitePath w))" by auto
  from a have pe: "currentIndexSqlitePath w = p" by blast
  from createTables_frame [OF 4(1)] have "db w4 = Some h" by (simp add: w3_def)
  with nc o 4(1) have g: "get w = (Inr (Some h), w4)"
    by (auto simp: get_def Let_def pe w3_def)
  from 4(8) d3(2) have keep: "\<forall>d0 nm tb. files w p = Some d0 \<and> d0 nm = Some tb \<longrightarrow> d4 nm = Some tb"
    by blast
  from 4 have r: "db w4 = Some h" "indexSqlitePath w4 = p"
    "events w4 = events w @ [Open p, Exec h create_tag_catalog, Exec h create_global_cache]"
    "files w4 p = Some d4"
    by (simp_all add: w3_def w2_def hp)
  have fl: "\<exists>d. files w4 p = Some d
                 \<and> d (str ''tag_catalog'') \<noteq> None \<and> d (str ''global_cache'') \<noteq> None
                 \<and> (\<forall>d0 nm tb. files w p = Some d0 \<and> d0 nm = Some tb \<longrightarrow> d nm = Some tb)"
    using r(4) 4(6,7) keep by blast
  show "\<exists>h w'. get w = (Inr (Some h), w')
           \<and> h = \<lparr>hid = next_handle w, hpath = p\<rparr>
           \<and> db w' = Some h \<and> indexSqlitePath w' = p
           \<and> events w' = events w @ [Open p, Exec h create_tag_catalog, Exec h create_global_cache]
           \<and> (\<exists>d. files w' p = Some d
                 \<and> d (str ''tag_catalog'') \<noteq> None \<and> d (str ''global_cache'') \<noteq> None
                 \<and> (\<forall>d0 nm tb. files w p = Some d0 \<and> d0 nm = Some tb \<longrightarrow> d nm = Some tb))"
    using g h_def r(1,2,3) fl by (intro exI [of _ h] exI [of _ w4]) simp
qed

text \<open>A first start: the store is opened and both tables are created; the second call
  returns the handle of the first and leaves the state as it is.\<close>

theorem SqliteDb_get_cached_or_reopened_witness:
  "fst (get demo_fresh_world) = Inr (Some \<lparr>hid = 0, hpath = str ''/idx/autodev-index.sqlite''\<rparr>)
   \<and> events (snd (get demo_fresh_world)) =
       [Open (str ''/idx/autodev-index.sqlite''),
        Exec \<lparr>hid = 0, hpath = str ''/idx/autodev-index.sqlite''\<rparr> create_tag_catalog,
        Exec \<lparr>hid = 0, hpath = str ''/idx/autodev-index.sqlite''\<rparr> create_global_cache]
   \<and> existsSync (snd (get demo_fresh_world)) (indexSqlitePath (snd (get demo_fresh_world)))
   \<and> get (snd (get demo_fresh_world)) =
       (Inr (Some \<lparr>hid = 0, hpath = str ''/idx/autodev-index.sqlite''\<rparr>),
        snd (get demo_fresh_world))"
proof -
  let ?p = "str ''/idx/autodev-index.sqlite''"
  let ?h = "\<lparr>hid = 0, hpath = ?p\<rparr>"
  have h: "(db demo_fresh_world = None
        \<or> \<not> existsSync demo_fresh_world (indexSqlitePath demo_fresh_world))
      \<and> ?p = currentIndexSqlitePath demo_fresh_world
      \<and> \<not> faults demo_fresh_world (Open ?p)
      \<and> (\<forall>h stmt. \<not> faults demo_fresh_world (Exec h stmt))"
    by (simp add: demo_fresh_world_def)
  have n: "next_handle demo_fresh_world = 0" "events demo_fresh_world = []"
    by (simp_all add: demo_fresh_world_def)
  note reopened =
    SqliteDb_get_cached_or_reopened
      [where w = demo_fresh_world and p = ?p, THEN conjunct2, THEN mp, OF h]
  then obtain h' w' d where 0: "get demo_fresh_world = (Inr (Some h'), w')"
    "h' = \<lparr>hid = next_handle demo_fresh_world, hpath = ?p\<rparr>"
    "db w' = Some h'" "indexSqlitePath w' = ?p"
    "events w' = events demo_fresh_world
       @ [Open ?p, Exec h' create_tag_catalog, Exec h' create_global_cache]"
    "files w' ?p = Some d"
    by (elim exE conjE) (rule that, assumption+)
  from 0(2) n have h': "h' = ?h" by simp
  from 0(1,3,4,5,6) n(2) have 1: "get demo_fresh_world = (Inr (Some ?h), w')"
    "db w' = Some ?h" "indexSqlitePath w' = ?p"
    "events w' = [Open ?p, Exec ?h create_tag_catalog, Exec ?h create_global_cache]"
    "files w' ?p = Some d"
    unfolding h' by simp_all
  from 1 have e: "existsSync w' (indexSqlitePath w')" by (simp add: existsSync_def)
  have c: "get demo_fresh_world = (Inr (Some ?h), w') \<and> db w' = db w'
      \<and> indexSqlitePath w' = indexSqlitePath w' \<and> existsSync w' (indexSqlitePath w')"
    using 1(1) e by simp
  note cached =
    SqliteDb_get_cached_or_reopened
      [where ?w0.0 = demo_fresh_world and r = "Some ?h" and ?w1.0 = w' and ?w2.0 = w',
       THEN conjunct1, THEN mp, OF c]
  then have 2: "get w' = (Inr (Some ?h), w')" by (rule conjunct2)
  from 1 2 e show ?thesis by simp
qed

end
